theory Spec2Isabelle
  imports Main "HOL-Library.Sublist"
begin

section \<open>The graph store of promptsandbox.io\<close>

text \<open>
  The store (\<^verbatim>\<open>useStore\<close>, a zustand store) keeps the node and edge collections of a
  React Flow graph and the selected node. Its operations read the state with
  \<^verbatim>\<open>get()\<close> and write a partial state with \<^verbatim>\<open>set(...)\<close>, which is merged into the
  state. Several operations assign to fields of the node objects they find in the
  state (\<^verbatim>\<open>node.data = {...data}\<close>, \<^verbatim>\<open>node.data.response = ''\<close>), so the objects
  are kept in an explicit heap: the state holds references, and a caller that kept a
  reference observes what an operation wrote through it.
\<close>

subsection \<open>Objects and the heap\<close>

type_synonym ref = nat

text \<open>
  The node types: \<^verbatim>\<open>NodeTypesEnum.textInput\<close> and \<^verbatim>\<open>NodeTypesEnum.llmPrompt\<close> are the
  two the side panel adds; the placeholder stub is the third of the specification.
\<close>

datatype NodeTypesEnum = textInput | llmPrompt | placeholder

text \<open>
  Modelled from the spec: the \<^verbatim>\<open>Inputs\<close> class, whose file is not available. An inputs
  object is an ordered collection of named input slots, each holding a value cached from
  an upstream node and the identifier of that source.
\<close>

record Slot =
  slot_name :: string
  slot_source :: string
  slot_value :: string

type_synonym Inputs = "Slot list"

text \<open>
  A node's \<^verbatim>\<open>data\<close> object. The store reads and writes its fields \<^verbatim>\<open>response\<close> and
  \<^verbatim>\<open>inputs\<close> (a reference to an \<^verbatim>\<open>Inputs\<close> object). The field \<open>content\<close> is
  modelled from the spec: the raw data of the node, the literal text of a text-input node
  or the prompt template of a prompt node.
\<close>

record NodeData =
  content :: string
  response :: string
  inputs :: ref

text \<open>A React Flow node object. The coordinates are only stored and copied.\<close>

record Node =
  node_id :: string
  node_type :: NodeTypesEnum
  position :: "int \<times> int"
  data :: ref

record Edge =
  edge_id :: string
  source :: string
  target :: string
  sourceHandle :: "string option"
  targetHandle :: "string option"

text \<open>
  The heap: one total map per class of object, and the next free address for the two
  classes of which the modelled code creates objects. An object literal or a spread copy
  is stored at the next free address.
\<close>

record heap =
  nodeH :: "ref \<Rightarrow> Node"
  dataH :: "ref \<Rightarrow> NodeData"
  inputsH :: "ref \<Rightarrow> Inputs"
  nodeNext :: ref
  dataNext :: ref

text \<open>
  The part of \<^verbatim>\<open>RFState\<close> the graph operations use (the other fields: documents,
  workflows, the React Flow instance, the error message, are written by their setters
  only).
\<close>

record RFState =
  nodes :: "ref list"
  edges :: "Edge list"
  selectedNode :: "ref option"

record world =
  hp :: heap
  st :: RFState

text \<open>\<^verbatim>\<open>node.data.inputs\<close>: the address of the node's \<^verbatim>\<open>Inputs\<close> object, and its content.\<close>

definition inputsRef :: "heap \<Rightarrow> ref \<Rightarrow> ref" where
  "inputsRef h n = inputs (dataH h (data (nodeH h n)))"

definition inputsOf :: "heap \<Rightarrow> ref \<Rightarrow> Inputs" where
  "inputsOf h n = inputsH h (inputsRef h n)"

subsection \<open>Setters\<close>

definition clearGraph :: "world \<Rightarrow> world" where
  "clearGraph w = w\<lparr>st := (st w)\<lparr>nodes := [], edges := [], selectedNode := None\<rparr>\<rparr>"

definition setNodes :: "ref list \<Rightarrow> world \<Rightarrow> world" where
  "setNodes ns w = w\<lparr>st := (st w)\<lparr>nodes := ns\<rparr>\<rparr>"

definition setEdges :: "Edge list \<Rightarrow> world \<Rightarrow> world" where
  "setEdges es w = w\<lparr>st := (st w)\<lparr>edges := es\<rparr>\<rparr>"

definition onNodeDragStop :: "ref \<Rightarrow> world \<Rightarrow> world" where
  "onNodeDragStop node w = w\<lparr>st := (st w)\<lparr>selectedNode := Some node\<rparr>\<rparr>"

subsection \<open>Node and edge changes\<close>

text \<open>
  Modelled from the spec: the types \<^verbatim>\<open>NodeChange\<close> and \<^verbatim>\<open>EdgeChange\<close> of the reactflow
  package, with the kinds of delta the specification names (add, remove,
  update-position). An add change carries the new item, the others the id they apply to.
\<close>

datatype NodeChange =
  NodeAdd ref
  | NodeRemove string
  | NodePosition string "int \<times> int"

datatype EdgeChange =
  EdgeAdd Edge
  | EdgeRemove string

fun node_change_id :: "NodeChange \<Rightarrow> string option" where
  "node_change_id (NodeAdd item) = None"
| "node_change_id (NodeRemove i) = Some i"
| "node_change_id (NodePosition i p) = Some i"

fun is_remove :: "NodeChange \<Rightarrow> bool" where
  "is_remove (NodeRemove i) = True"
| "is_remove c = False"

fun apply_position :: "NodeChange \<Rightarrow> Node \<Rightarrow> Node" where
  "apply_position (NodePosition i p) nd = nd\<lparr>position := p\<rparr>"
| "apply_position c nd = nd"

text \<open>
  Modelled from the spec: \<^verbatim>\<open>applyNodeChanges\<close>, a function of the reactflow package.
  It applies a batch of deltas (add, remove, update-position) to the node list: added items come first; a node with no change of its id stays the
  same object; a node with a remove change is left out; a node with position changes is
  replaced by a copy that carries them.
\<close>

definition applyNodeChange :: "NodeChange list \<Rightarrow> ref \<Rightarrow> heap \<Rightarrow> ref list \<times> heap" where
  "applyNodeChange changes n h =
     (let currentChanges =
            filter (\<lambda>c. node_change_id c = Some (node_id (nodeH h n))) changes
      in if currentChanges = [] then ([n], h)
         else if list_ex is_remove currentChanges then ([], h)
         else ([nodeNext h],
               h\<lparr>nodeH := (nodeH h)(nodeNext h := fold apply_position currentChanges (nodeH h n)),
                  nodeNext := Suc (nodeNext h)\<rparr>))"

fun applyNodeChangesTo :: "NodeChange list \<Rightarrow> ref list \<Rightarrow> heap \<Rightarrow> ref list \<times> heap" where
  "applyNodeChangesTo changes [] h = ([], h)"
| "applyNodeChangesTo changes (n # ns) h =
     (let (r1, h1) = applyNodeChange changes n h;
          (r2, h2) = applyNodeChangesTo changes ns h1
      in (r1 @ r2, h2))"

fun added_nodes :: "NodeChange list \<Rightarrow> ref list" where
  "added_nodes [] = []"
| "added_nodes (NodeAdd item # cs) = item # added_nodes cs"
| "added_nodes (c # cs) = added_nodes cs"

definition applyNodeChanges :: "NodeChange list \<Rightarrow> ref list \<Rightarrow> heap \<Rightarrow> ref list \<times> heap" where
  "applyNodeChanges changes ns h =
     (let (rs, h') = applyNodeChangesTo changes ns h in (added_nodes changes @ rs, h'))"

text \<open>
  Modelled from the spec: \<^verbatim>\<open>applyEdgeChanges\<close>, a function of the reactflow package:
  added edges come first, an edge with a remove change of its id is left out.
\<close>

fun added_edges :: "EdgeChange list \<Rightarrow> Edge list" where
  "added_edges [] = []"
| "added_edges (EdgeAdd item # cs) = item # added_edges cs"
| "added_edges (c # cs) = added_edges cs"

definition applyEdgeChanges :: "EdgeChange list \<Rightarrow> Edge list \<Rightarrow> Edge list" where
  "applyEdgeChanges changes es =
     added_edges changes @ filter (\<lambda>e. EdgeRemove (edge_id e) \<notin> set changes) es"

text \<open>
  \<^verbatim>\<open>onNodesChange\<close>. In \<^verbatim>\<open>change.id === selectedNode?.id\<close> the right side is
  \<^verbatim>\<open>undefined\<close> when nothing is selected, and the id of a remove change is a string. The
  update object has the key \<^verbatim>\<open>selectedNode\<close> only when the selected node is deleted,
  so \<^verbatim>\<open>set\<close> leaves the selection as it is otherwise. The function that applies the
  changes is a parameter.
\<close>

definition isSelectedNodeDeleted :: "NodeChange list \<Rightarrow> world \<Rightarrow> bool" where
  "isSelectedNodeDeleted changes w =
     list_ex (\<lambda>change.
        is_remove change
        \<and> node_change_id change
            = map_option (\<lambda>s. node_id (nodeH (hp w) s)) (selectedNode (st w))) changes"

definition onNodesChange ::
  "(NodeChange list \<Rightarrow> ref list \<Rightarrow> heap \<Rightarrow> ref list \<times> heap) \<Rightarrow> NodeChange list \<Rightarrow> world \<Rightarrow> world" where
  "onNodesChange applyChanges changes w =
     (let (nodes', h') = applyChanges changes (nodes (st w)) (hp w)
      in if isSelectedNodeDeleted changes w
         then \<lparr>hp = h', st = (st w)\<lparr>nodes := nodes', selectedNode := None\<rparr>\<rparr>
         else \<lparr>hp = h', st = (st w)\<lparr>nodes := nodes'\<rparr>\<rparr>)"

definition onEdgesChange ::
  "(EdgeChange list \<Rightarrow> Edge list \<Rightarrow> Edge list) \<Rightarrow> EdgeChange list \<Rightarrow> world \<Rightarrow> world" where
  "onEdgesChange applyChanges changes w =
     w\<lparr>st := (st w)\<lparr>edges := applyChanges changes (edges (st w))\<rparr>\<rparr>"

definition deleteEdges :: "string \<Rightarrow> world \<Rightarrow> world" where
  "deleteEdges h w =
     w\<lparr>st := (st w)\<lparr>edges := filter (\<lambda>edge. sourceHandle edge \<noteq> Some h) (edges (st w))\<rparr>\<rparr>"

subsection \<open>Reading nodes\<close>

text \<open>\<^verbatim>\<open>getNodes\<close> returns a list and performs no \<^verbatim>\<open>set\<close>; the world is returned with it.\<close>

definition getNodes :: "string list \<Rightarrow> world \<Rightarrow> ref list \<times> world" where
  "getNodes nodeIds w =
     (if length nodeIds = 0 then ([], w)
      else (filter (\<lambda>node. node_id (nodeH (hp w) node) \<in> set nodeIds) (nodes (st w)), w))"

subsection \<open>Updating a node\<close>

text \<open>
  The callback of \<^verbatim>\<open>get().nodes.map\<close> in \<^verbatim>\<open>updateNode\<close>: a node with the given id gets a
  new data object, a spread copy of the argument, assigned to its \<^verbatim>\<open>data\<close> field, and
  becomes the selected node. The callback returns the node it was given.
\<close>

definition assignData :: "string \<Rightarrow> NodeData \<Rightarrow> ref \<Rightarrow> ref option \<times> heap \<Rightarrow> ref option \<times> heap" where
  "assignData nodeId d n acc =
     (let h = snd acc
      in if node_id (nodeH h n) = nodeId
         then (Some n,
               h\<lparr>dataH := (dataH h)(dataNext h := d),
                  nodeH := (nodeH h)(n := (nodeH h n)\<lparr>data := dataNext h\<rparr>),
                  dataNext := Suc (dataNext h)\<rparr>)
         else acc)"

text \<open>
  \<^verbatim>\<open>targetNode.data.inputs.updateInput(nodeId, nodes)\<close>. The method belongs to the
  \<^verbatim>\<open>Inputs\<close> class, whose file is not available, so it is a parameter of
  \<^verbatim>\<open>updateNode\<close> here: a function that gives the new content of the receiver from the
  arguments, the heap at the call and the receiver's content. (\<^verbatim>\<open>updateNode\<close> discards
  its result, so it acts by writing its receiver.)
\<close>

type_synonym UpdateInput = "string \<Rightarrow> ref list \<Rightarrow> heap \<Rightarrow> Inputs \<Rightarrow> Inputs"

definition callUpdateInput :: "UpdateInput \<Rightarrow> string \<Rightarrow> ref list \<Rightarrow> ref \<Rightarrow> heap \<Rightarrow> heap" where
  "callUpdateInput updateInput nodeId ns targetNode h =
     h\<lparr>inputsH := (inputsH h)
          (inputsRef h targetNode := updateInput nodeId ns h (inputsH h (inputsRef h targetNode)))\<rparr>"

definition targetNodesOf :: "string \<Rightarrow> Edge list \<Rightarrow> heap \<Rightarrow> ref list \<Rightarrow> ref list" where
  "targetNodesOf nodeId es h ns =
     (let targetEdges = filter (\<lambda>e. source e = nodeId) es
      in filter (\<lambda>n. node_id (nodeH h n) \<in> set (map target targetEdges)) ns)"

definition updateNode :: "UpdateInput \<Rightarrow> string \<Rightarrow> NodeData \<Rightarrow> world \<Rightarrow> world" where
  "updateNode updateInput nodeId d w =
     (let (selectedNode', h1) = fold (assignData nodeId d) (nodes (st w)) (None, hp w);
          nodes' = nodes (st w);
          targetNodes = targetNodesOf nodeId (edges (st w)) h1 nodes';
          h2 = fold (callUpdateInput updateInput nodeId nodes') targetNodes h1
      in \<lparr>hp = h2, st = (st w)\<lparr>nodes := nodes', selectedNode := selectedNode'\<rparr>\<rparr>)"

text \<open>
  Modelled from the spec: the output value of a source node, its computed response or,
  when it has none yet, its raw current data.
\<close>

definition outputValue :: "NodeData \<Rightarrow> string" where
  "outputValue d = (if response d \<noteq> [] then response d else content d)"

text \<open>
  Modelled from the spec: the write of one slot by the input-update. Only a slot tied to
  the source is written; the other slots are never overwritten.
\<close>

definition setSlot :: "string \<Rightarrow> string \<Rightarrow> Slot \<Rightarrow> Slot" where
  "setSlot nodeId v s = (if slot_source s = nodeId then s\<lparr>slot_value := v\<rparr> else s)"

text \<open>
  Modelled from the spec: \<^verbatim>\<open>Inputs.updateInput\<close>, whose file is not available. The
  input-update looks the source node up in the nodes it is given and sets the recorded
  value of the slots tied to it to the source's output value.
\<close>

definition Inputs_updateInput :: UpdateInput where
  "Inputs_updateInput nodeId ns h slots =
     (case find (\<lambda>n. node_id (nodeH h n) = nodeId) ns of
        None \<Rightarrow> slots
      | Some n \<Rightarrow> map (setSlot nodeId (outputValue (dataH h (data (nodeH h n))))) slots)"

text \<open>The direct successors of a node id: the targets of the edges whose source it is.\<close>

definition directSuccessor :: "string \<Rightarrow> world \<Rightarrow> ref \<Rightarrow> bool" where
  "directSuccessor nodeId w t =
     (\<exists>e \<in> set (edges (st w)). source e = nodeId \<and> target e = node_id (nodeH (hp w) t))"


subsection \<open>Clearing the responses\<close>

text \<open>\<^verbatim>\<open>node.data.response = ''\<close> writes the node's data object in place.\<close>

definition clearResponse :: "ref \<Rightarrow> heap \<Rightarrow> heap" where
  "clearResponse n h =
     h\<lparr>dataH := (dataH h)(data (nodeH h n) := (dataH h (data (nodeH h n)))\<lparr>response := []\<rparr>)\<rparr>"

definition clearAllNodeResponses :: "world \<Rightarrow> world" where
  "clearAllNodeResponses w =
     \<lparr>hp = fold clearResponse (nodes (st w)) (hp w), st = (st w)\<lparr>nodes := nodes (st w)\<rparr>\<rparr>"

subsection \<open>The inputs invariant\<close>

text \<open>
  Every entry of the inputs of a stored node has an inbound edge: an edge to the node
  from the entry's source.
\<close>

definition inputs_inv :: "world \<Rightarrow> bool" where
  "inputs_inv w =
     (\<forall>n \<in> set (nodes (st w)). \<forall>s \<in> set (inputsOf (hp w) n).
        \<exists>e \<in> set (edges (st w)).
          target e = node_id (nodeH (hp w) n) \<and> source e = slot_source s)"

text \<open>
  The data object of every stored node lies below the next free address: an object the
  program creates is never one that exists already.
\<close>

definition data_allocated :: "world \<Rightarrow> bool" where
  "data_allocated w = (\<forall>n \<in> set (nodes (st w)). data (nodeH (hp w) n) < dataNext (hp w))"

subsection \<open>A sample graph\<close>

text \<open>
  A text-input node T ("Hello") feeds the prompt node P, which feeds the prompt node Q.
  P has recorded T as an input, Q has recorded P. T is selected. The nodes are the objects
  at the addresses 0, 1 and 2, each with its data object and its inputs object at the
  same address; the inputs object at address 3 is empty and belongs to no node.
\<close>

definition nodeT :: Node where
  "nodeT = \<lparr>node_id = ''T'', node_type = textInput, position = (0, 0), data = 0\<rparr>"

definition nodeP :: Node where
  "nodeP = \<lparr>node_id = ''P'', node_type = llmPrompt, position = (10, 0), data = 1\<rparr>"

definition nodeQ :: Node where
  "nodeQ = \<lparr>node_id = ''Q'', node_type = llmPrompt, position = (20, 0), data = 2\<rparr>"

definition dataT :: NodeData where
  "dataT = \<lparr>content = ''Hello'', response = [], inputs = 0\<rparr>"

definition dataP :: NodeData where
  "dataP = \<lparr>content = ''Say: {in}'', response = ''Hi'', inputs = 1\<rparr>"

definition dataQ :: NodeData where
  "dataQ = \<lparr>content = ''Shout: {in}'', response = ''HI'', inputs = 2\<rparr>"

definition slotT :: Slot where
  "slotT = \<lparr>slot_name = ''in'', slot_source = ''T'', slot_value = ''Hello''\<rparr>"

definition slotP :: Slot where
  "slotP = \<lparr>slot_name = ''in'', slot_source = ''P'', slot_value = ''Hi''\<rparr>"

definition edgeTP :: Edge where
  "edgeTP = \<lparr>edge_id = ''T-P'', source = ''T'', target = ''P'',
              sourceHandle = Some ''T-out'', targetHandle = Some ''in''\<rparr>"

definition edgePQ :: Edge where
  "edgePQ = \<lparr>edge_id = ''P-Q'', source = ''P'', target = ''Q'',
              sourceHandle = Some ''P-out'', targetHandle = Some ''in''\<rparr>"

definition sample_heap :: heap where
  "sample_heap =
     \<lparr>nodeH = (\<lambda>a. nodeT)(1 := nodeP, 2 := nodeQ),
      dataH = (\<lambda>a. dataT)(1 := dataP, 2 := dataQ),
      inputsH = (\<lambda>a. [])(1 := [slotT], 2 := [slotP]),
      nodeNext = 3,
      dataNext = 3\<rparr>"

definition sample_world :: world where
  "sample_world =
     \<lparr>hp = sample_heap,
      st = \<lparr>nodes = [0, 1, 2], edges = [edgeTP, edgePQ], selectedNode = Some 0\<rparr>\<rparr>"

text \<open>
  Two arguments of \<^verbatim>\<open>updateNode\<close>: T's data with another text (and T's own inputs
  object), and Q's data with its response cleared and the empty inputs object.
\<close>

definition dataBye :: NodeData where
  "dataBye = \<lparr>content = ''Bye'', response = [], inputs = 0\<rparr>"

definition dataReset :: NodeData where
  "dataReset = \<lparr>content = ''Shout: {in}'', response = [], inputs = 3\<rparr>"


lemmas sample_defs =
  sample_world_def sample_heap_def nodeT_def nodeP_def nodeQ_def dataT_def dataP_def dataQ_def
  slotT_def slotP_def edgeTP_def edgePQ_def dataBye_def dataReset_def

lemmas updateNode_eval =
  updateNode_def assignData_def callUpdateInput_def targetNodesOf_def Inputs_updateInput_def
  setSlot_def inputsRef_def inputsOf_def outputValue_def directSuccessor_def Let_def

section \<open>Properties\<close>

subsection \<open>deleteEdges\<close>

text \<open>
  C7. For every source handle, \<^verbatim>\<open>deleteEdges\<close> keeps exactly the edges whose source
  handle differs from it, in their order: an edge is in the collection afterwards if and
  only if it was there before and its source handle does not match. The nodes, the
  selection and the heap are as before.
\<close>

theorem deleteEdges_removes_exactly:
  "edges (st (deleteEdges h w)) = filter (\<lambda>e. sourceHandle e \<noteq> Some h) (edges (st w))
   \<and> (\<forall>e. e \<in> set (edges (st (deleteEdges h w)))
          \<longleftrightarrow> e \<in> set (edges (st w)) \<and> sourceHandle e \<noteq> Some h)
   \<and> nodes (st (deleteEdges h w)) = nodes (st w)
   \<and> selectedNode (st (deleteEdges h w)) = selectedNode (st w)
   \<and> hp (deleteEdges h w) = hp w"
  by (simp add: deleteEdges_def)

theorem deleteEdges_removes_exactly_witness:
  "edges (st (deleteEdges ''T-out'' sample_world)) = [edgePQ]
   \<and> nodes (st (deleteEdges ''T-out'' sample_world)) = [0, 1, 2]"
  using deleteEdges_removes_exactly [of "''T-out''" sample_world]
  by (simp add: sample_defs)

subsection \<open>getNodes\<close>

text \<open>
  C9. For every list of ids, \<^verbatim>\<open>getNodes\<close> returns the stored nodes whose id occurs in
  the list, in the order of the store: a node is returned if and only if it is stored and
  its id is in the list, the result is a subsequence of the stored nodes, it is empty for
  the empty list, and the store is as before.
\<close>

theorem getNodes_exact:
  "fst (getNodes ids w) = filter (\<lambda>n. node_id (nodeH (hp w) n) \<in> set ids) (nodes (st w))
   \<and> (\<forall>n. n \<in> set (fst (getNodes ids w))
          \<longleftrightarrow> n \<in> set (nodes (st w)) \<and> node_id (nodeH (hp w) n) \<in> set ids)
   \<and> subseq (fst (getNodes ids w)) (nodes (st w))
   \<and> fst (getNodes [] w) = []
   \<and> snd (getNodes ids w) = w"
  by (simp add: getNodes_def)

theorem getNodes_exact_witness:
  "fst (getNodes [''Q'', ''T'', ''X''] sample_world) = [0, 2]
   \<and> snd (getNodes [''Q'', ''T'', ''X''] sample_world) = sample_world"
  using getNodes_exact [of "[''Q'', ''T'', ''X'']" sample_world]
  by (simp add: sample_defs)

subsection \<open>clearAllNodeResponses\<close>

lemma fold_clearResponse_nodeH [simp]: "nodeH (fold clearResponse ns h) = nodeH h"
  by (induction ns arbitrary: h) (simp_all add: clearResponse_def)

lemma fold_clearResponse_inputsH [simp]: "inputsH (fold clearResponse ns h) = inputsH h"
  by (induction ns arbitrary: h) (simp_all add: clearResponse_def)

lemma fold_clearResponse_next [simp]:
  "nodeNext (fold clearResponse ns h) = nodeNext h \<and> dataNext (fold clearResponse ns h) = dataNext h"
  by (induction ns arbitrary: h) (simp_all add: clearResponse_def)

lemma clearResponse_dataH:
  "dataH (clearResponse n h) a =
     (if a = data (nodeH h n) then (dataH h a)\<lparr>response := []\<rparr> else dataH h a)"
  by (simp add: clearResponse_def)

lemma clearResponse_nodeH [simp]: "nodeH (clearResponse n h) = nodeH h"
  by (simp add: clearResponse_def)

lemma fold_clearResponse_dataH:
  "dataH (fold clearResponse ns h) a =
     (if a \<in> (\<lambda>n. data (nodeH h n)) ` set ns then (dataH h a)\<lparr>response := []\<rparr> else dataH h a)"
proof (induction ns arbitrary: h)
  case Nil
  then show ?case by simp
next
  case (Cons n ns)
  show ?case
    using Cons.IH [of "clearResponse n h"] by (auto simp: clearResponse_dataH)
qed

text \<open>
  C8. \<^verbatim>\<open>clearAllNodeResponses\<close> sets the response of every stored node to the empty
  string and leaves the structure as it is: the node list, the edges and the selection,
  every node object (its id, type, position and data reference), the content and the
  inputs reference of every data object, and every inputs object.
\<close>

theorem clearAllNodeResponses_frame:
  "(\<forall>n \<in> set (nodes (st w)).
      response (dataH (hp (clearAllNodeResponses w))
                  (data (nodeH (hp (clearAllNodeResponses w)) n))) = [])
   \<and> nodes (st (clearAllNodeResponses w)) = nodes (st w)
   \<and> edges (st (clearAllNodeResponses w)) = edges (st w)
   \<and> selectedNode (st (clearAllNodeResponses w)) = selectedNode (st w)
   \<and> nodeH (hp (clearAllNodeResponses w)) = nodeH (hp w)
   \<and> (\<forall>a. inputs (dataH (hp (clearAllNodeResponses w)) a) = inputs (dataH (hp w) a)
          \<and> content (dataH (hp (clearAllNodeResponses w)) a) = content (dataH (hp w) a))
   \<and> inputsH (hp (clearAllNodeResponses w)) = inputsH (hp w)
   \<and> (\<forall>n. inputsOf (hp (clearAllNodeResponses w)) n = inputsOf (hp w) n)"
  by (simp add: clearAllNodeResponses_def fold_clearResponse_dataH inputsOf_def inputsRef_def)

theorem clearAllNodeResponses_frame_witness:
  "response (dataH (hp (clearAllNodeResponses sample_world)) 1) = []
   \<and> response (dataH (hp sample_world) 1) = ''Hi''
   \<and> inputsOf (hp (clearAllNodeResponses sample_world)) 1 = [slotT]
   \<and> edges (st (clearAllNodeResponses sample_world)) = [edgeTP, edgePQ]"
proof -
  note fr = clearAllNodeResponses_frame [of sample_world]
  have mem: "1 \<in> set (nodes (st sample_world))"
    by (simp add: sample_defs)
  have d: "data (nodeH (hp sample_world) 1) = 1"
    by (simp add: sample_defs)
  from fr mem have "response (dataH (hp (clearAllNodeResponses sample_world))
      (data (nodeH (hp (clearAllNodeResponses sample_world)) 1))) = []"
    by blast
  moreover from fr have "nodeH (hp (clearAllNodeResponses sample_world)) = nodeH (hp sample_world)"
    by blast
  ultimately have r: "response (dataH (hp (clearAllNodeResponses sample_world)) 1) = []"
    using d by simp
  from fr have i: "inputsOf (hp (clearAllNodeResponses sample_world)) 1 = inputsOf (hp sample_world) 1"
    by blast
  from fr have e: "edges (st (clearAllNodeResponses sample_world)) = edges (st sample_world)"
    by blast
  show ?thesis
    using r i e by (simp add: sample_defs inputsOf_def inputsRef_def)
qed

subsection \<open>onNodesChange: the selection\<close>

lemma isSelectedNodeDeleted_iff:
  "isSelectedNodeDeleted changes w \<longleftrightarrow>
     (\<exists>c \<in> set changes. \<exists>s. selectedNode (st w) = Some s
         \<and> c = NodeRemove (node_id (nodeH (hp w) s)))"
proof -
  have "\<And>c. is_remove c
          \<and> node_change_id c = map_option (\<lambda>s. node_id (nodeH (hp w) s)) (selectedNode (st w))
        \<longleftrightarrow> (\<exists>s. selectedNode (st w) = Some s \<and> c = NodeRemove (node_id (nodeH (hp w) s)))"
    subgoal for c by (cases c; cases "selectedNode (st w)") auto
    done
  then show ?thesis
    by (simp add: isSelectedNodeDeleted_def list_ex_iff)
qed

text \<open>
  C6. For every batch of node changes, \<^verbatim>\<open>onNodesChange\<close> sets the selection to null,
  in the update that stores the new nodes, when the batch has a remove change whose id is
  the id of the selected node; otherwise the selection is as before. This holds whatever
  function applies the changes.
\<close>

theorem onNodesChange_selection:
  "selectedNode (st (onNodesChange applyChanges changes w)) =
     (if (\<exists>c \<in> set changes. \<exists>s. selectedNode (st w) = Some s
             \<and> c = NodeRemove (node_id (nodeH (hp w) s)))
      then None else selectedNode (st w))"
  unfolding isSelectedNodeDeleted_iff [symmetric]
  by (simp add: onNodesChange_def split: prod.splits)

theorem onNodesChange_selection_witness:
  "selectedNode (st (onNodesChange applyNodeChanges [NodePosition ''P'' (1, 1), NodeRemove ''T''] sample_world)) = None
   \<and> selectedNode (st (onNodesChange applyNodeChanges [NodeRemove ''P''] sample_world)) = Some 0"
  using onNodesChange_selection [of applyNodeChanges "[NodePosition ''P'' (1, 1), NodeRemove ''T'']" sample_world]
    onNodesChange_selection [of applyNodeChanges "[NodeRemove ''P'']" sample_world]
  by (simp add: sample_defs)

subsection \<open>onNodesChange: removing nodes\<close>

lemma added_nodes_removes [simp]: "added_nodes (map NodeRemove ids) = []"
  by (induction ids) simp_all

lemma applyNodeChange_removes:
  "applyNodeChange (map NodeRemove ids) n h =
     (if node_id (nodeH h n) \<in> set ids then ([], h) else ([n], h))"
proof -
  have cur: "filter (\<lambda>c. node_change_id c = Some (node_id (nodeH h n))) (map NodeRemove ids)
      = map NodeRemove (filter (\<lambda>i. i = node_id (nodeH h n)) ids)"
    by (induction ids) simp_all
  have ex: "list_ex is_remove (map NodeRemove js) \<longleftrightarrow> js \<noteq> []" for js
    by (cases js) simp_all
  have ne: "filter (\<lambda>i. i = node_id (nodeH h n)) ids \<noteq> [] \<longleftrightarrow> node_id (nodeH h n) \<in> set ids"
    by (auto simp: filter_empty_conv)
  show ?thesis
    unfolding applyNodeChange_def cur Let_def
    by (auto simp: ex filter_empty_conv)
qed

lemma applyNodeChangesTo_removes:
  "applyNodeChangesTo (map NodeRemove ids) ns h =
     (filter (\<lambda>r. node_id (nodeH h r) \<notin> set ids) ns, h)"
  by (induction ns) (simp_all add: applyNodeChange_removes)

lemma applyNodeChanges_removes:
  "applyNodeChanges (map NodeRemove ids) ns h =
     (filter (\<lambda>r. node_id (nodeH h r) \<notin> set ids) ns, h)"
  by (simp add: applyNodeChanges_def applyNodeChangesTo_removes)

lemma isSelectedNodeDeleted_removes:
  "isSelectedNodeDeleted (map NodeRemove ids) w \<longleftrightarrow>
     (\<exists>s. selectedNode (st w) = Some s \<and> node_id (nodeH (hp w) s) \<in> set ids)"
  by (auto simp: isSelectedNodeDeleted_iff)

text \<open>
  C1, as the specification states it, fails: \<^verbatim>\<open>onNodesChange\<close> writes the node list
  and the selection only. After the removal of T from the sample graph the edge from T
  to P is still in the edge collection and P still records T among its inputs.
\<close>

theorem onNodesChange_counterexample:
  "nodes (st (onNodesChange applyNodeChanges [NodeRemove ''T''] sample_world)) = [1, 2]
   \<and> edges (st (onNodesChange applyNodeChanges [NodeRemove ''T''] sample_world)) = [edgeTP, edgePQ]
   \<and> source edgeTP = ''T''
   \<and> inputsOf (hp (onNodesChange applyNodeChanges [NodeRemove ''T''] sample_world)) 1 = [slotT]
   \<and> slot_source slotT = ''T''"
  by (simp add: onNodesChange_def isSelectedNodeDeleted_def applyNodeChanges_def
      applyNodeChange_def inputsOf_def inputsRef_def sample_defs)

text \<open>
  C1, amended. Applying removal changes for the ids \<open>ids\<close> through \<^verbatim>\<open>onNodesChange\<close>
  leaves out of the node list the nodes whose id is among \<open>ids\<close> and keeps the others
  in their order, and sets the selection to null when the selected node's id is among
  them. The edge collection and every object of the heap, so the recorded inputs of every
  node, are as before.
\<close>

theorem onNodesChange_remove:
  "nodes (st (onNodesChange applyNodeChanges (map NodeRemove ids) w))
     = filter (\<lambda>r. node_id (nodeH (hp w) r) \<notin> set ids) (nodes (st w))
   \<and> selectedNode (st (onNodesChange applyNodeChanges (map NodeRemove ids) w))
     = (if \<exists>s. selectedNode (st w) = Some s \<and> node_id (nodeH (hp w) s) \<in> set ids
        then None else selectedNode (st w))
   \<and> edges (st (onNodesChange applyNodeChanges (map NodeRemove ids) w)) = edges (st w)
   \<and> hp (onNodesChange applyNodeChanges (map NodeRemove ids) w) = hp w"
  by (auto simp: onNodesChange_def applyNodeChanges_removes isSelectedNodeDeleted_removes)

theorem onNodesChange_remove_witness:
  "nodes (st (onNodesChange applyNodeChanges (map NodeRemove [''T'']) sample_world)) = [1, 2]
   \<and> selectedNode (st (onNodesChange applyNodeChanges (map NodeRemove [''T'']) sample_world)) = None
   \<and> edges (st (onNodesChange applyNodeChanges (map NodeRemove [''T'']) sample_world)) = [edgeTP, edgePQ]"
  using onNodesChange_remove [of "[''T'']" sample_world]
  by (simp add: sample_defs)

subsection \<open>The inputs invariant under the store operations\<close>

lemma inputs_inv_frame:
  assumes "inputs_inv w"
    and "set (nodes (st w')) \<subseteq> set (nodes (st w))"
    and "set (edges (st w)) \<subseteq> set (edges (st w'))"
    and "\<And>n. n \<in> set (nodes (st w')) \<Longrightarrow> inputsOf (hp w') n = inputsOf (hp w) n"
    and "\<And>n. n \<in> set (nodes (st w')) \<Longrightarrow> node_id (nodeH (hp w') n) = node_id (nodeH (hp w) n)"
  shows "inputs_inv w'"
  unfolding inputs_inv_def
proof (intro ballI)
  fix n s
  assume n: "n \<in> set (nodes (st w'))" and s: "s \<in> set (inputsOf (hp w') n)"
  from n assms(2) have n': "n \<in> set (nodes (st w))" by blast
  from s assms(4) [OF n] have s': "s \<in> set (inputsOf (hp w) n)" by simp
  from assms(1) n' s' obtain e where e: "e \<in> set (edges (st w))"
    "target e = node_id (nodeH (hp w) n)" "source e = slot_source s"
    unfolding inputs_inv_def by blast
  from e(1) assms(3) have "e \<in> set (edges (st w'))" by blast
  with e(2,3) assms(5) [OF n]
  show "\<exists>e \<in> set (edges (st w')). target e = node_id (nodeH (hp w') n) \<and> source e = slot_source s"
    by auto
qed

lemma added_edges_adds [simp]: "added_edges (map EdgeAdd es) = es"
  by (induction es) simp_all

lemma applyEdgeChanges_adds: "applyEdgeChanges (map EdgeAdd es) es0 = es @ es0"
  by (auto simp: applyEdgeChanges_def filter_id_conv)

text \<open>
  C2, as the specification states it, fails: the sample graph satisfies the invariant,
  and after \<^verbatim>\<open>deleteEdges\<close> of T's source handle, or after \<^verbatim>\<open>onEdgesChange\<close> with a
  remove change for the edge from T to P, P still records T with no edge from T.
\<close>

theorem inputs_inv_counterexample:
  "inputs_inv sample_world
   \<and> \<not> inputs_inv (deleteEdges ''T-out'' sample_world)
   \<and> \<not> inputs_inv (onEdgesChange applyEdgeChanges [EdgeRemove ''T-P''] sample_world)"
  by (simp add: inputs_inv_def deleteEdges_def onEdgesChange_def applyEdgeChanges_def
      inputsOf_def inputsRef_def sample_defs)

text \<open>
  C2, amended. The invariant is preserved by the operations that neither remove an edge
  nor add an input entry: \<^verbatim>\<open>clearGraph\<close>, \<^verbatim>\<open>onNodeDragStop\<close>, \<^verbatim>\<open>getNodes\<close>,
  \<^verbatim>\<open>clearAllNodeResponses\<close>, removal changes through \<^verbatim>\<open>onNodesChange\<close>,
  \<^verbatim>\<open>setEdges\<close> to a collection that holds every current edge, and add changes through
  \<^verbatim>\<open>onEdgesChange\<close>. \<^verbatim>\<open>onEdgesChange\<close> writes the edge collection only, whatever
  the changes: the nodes and every object of the heap are as before, so it prunes no
  input entry.
\<close>

theorem inputs_inv_preserved:
  assumes "inputs_inv w"
  shows "inputs_inv (clearGraph w)
    \<and> inputs_inv (onNodeDragStop node w)
    \<and> inputs_inv (snd (getNodes ids w))
    \<and> inputs_inv (clearAllNodeResponses w)
    \<and> inputs_inv (onNodesChange applyNodeChanges (map NodeRemove ids) w)
    \<and> (set (edges (st w)) \<subseteq> set es \<longrightarrow> inputs_inv (setEdges es w))
    \<and> inputs_inv (onEdgesChange applyEdgeChanges (map EdgeAdd added) w)
    \<and> hp (onEdgesChange applyChanges changes w) = hp w
    \<and> nodes (st (onEdgesChange applyChanges changes w)) = nodes (st w)"
proof -
  have 1: "inputs_inv (clearGraph w)"
    by (simp add: inputs_inv_def clearGraph_def)
  have 2: "inputs_inv (onNodeDragStop node w)"
    by (rule inputs_inv_frame [OF assms]) (simp_all add: onNodeDragStop_def)
  have 3: "inputs_inv (snd (getNodes ids w))"
    using assms by (simp add: getNodes_def)
  have 4: "inputs_inv (clearAllNodeResponses w)"
    by (rule inputs_inv_frame [OF assms])
      (simp_all add: clearAllNodeResponses_def inputsOf_def inputsRef_def fold_clearResponse_dataH)
  have 5: "inputs_inv (onNodesChange applyNodeChanges (map NodeRemove ids) w)"
    by (rule inputs_inv_frame [OF assms])
      (auto simp: onNodesChange_def applyNodeChanges_removes)
  have 6: "set (edges (st w)) \<subseteq> set es \<longrightarrow> inputs_inv (setEdges es w)"
  proof
    assume sub: "set (edges (st w)) \<subseteq> set es"
    show "inputs_inv (setEdges es w)"
      by (rule inputs_inv_frame [OF assms]) (use sub in \<open>simp_all add: setEdges_def\<close>)
  qed
  have 7: "inputs_inv (onEdgesChange applyEdgeChanges (map EdgeAdd added) w)"
    by (rule inputs_inv_frame [OF assms])
      (simp_all add: onEdgesChange_def applyEdgeChanges_adds)
  have 8: "hp (onEdgesChange applyChanges changes w) = hp w
    \<and> nodes (st (onEdgesChange applyChanges changes w)) = nodes (st w)"
    by (simp add: onEdgesChange_def)
  from 1 2 3 4 5 6 7 8 show ?thesis by blast
qed

theorem inputs_inv_preserved_witness:
  "inputs_inv sample_world
   \<and> inputs_inv (clearAllNodeResponses sample_world)
   \<and> inputs_inv (onNodesChange applyNodeChanges (map NodeRemove [''T'']) sample_world)
   \<and> inputs_inv (setEdges [edgePQ, edgeTP, edgeTP] sample_world)
   \<and> inputs_inv (onEdgesChange applyEdgeChanges (map EdgeAdd [edgePQ]) sample_world)
   \<and> nodes (st (onEdgesChange applyEdgeChanges [EdgeRemove ''T-P''] sample_world)) = [0, 1, 2]"
proof -
  have inv: "inputs_inv sample_world"
    by (simp add: inputs_inv_def inputsOf_def inputsRef_def sample_defs)
  have sub: "set (edges (st sample_world)) \<subseteq> set [edgePQ, edgeTP, edgeTP]"
    by (simp add: sample_world_def)
  have ns: "nodes (st sample_world) = [0, 1, 2]"
    by (simp add: sample_world_def)
  from inputs_inv_preserved [OF inv, where node = 1 and ids = "[''T'']"
      and es = "[edgePQ, edgeTP, edgeTP]" and added = "[edgePQ]"
      and applyChanges = applyEdgeChanges and changes = "[EdgeRemove ''T-P'']"] inv sub ns
  show ?thesis by simp
qed

section \<open>updateNode\<close>

subsection \<open>Replacing the data\<close>

lemma assignData_inputsH [simp]: "inputsH (snd (assignData nodeId d n acc)) = inputsH (snd acc)"
  by (simp add: assignData_def Let_def)

lemma assignData_nodeNext [simp]: "nodeNext (snd (assignData nodeId d n acc)) = nodeNext (snd acc)"
  by (simp add: assignData_def Let_def)

lemma assignData_node_id [simp]:
  "node_id (nodeH (snd (assignData nodeId d n acc)) r) = node_id (nodeH (snd acc) r)"
  by (simp add: assignData_def Let_def)

lemma assignData_node_type [simp]:
  "node_type (nodeH (snd (assignData nodeId d n acc)) r) = node_type (nodeH (snd acc) r)"
  by (simp add: assignData_def Let_def)

lemma assignData_position [simp]:
  "position (nodeH (snd (assignData nodeId d n acc)) r) = position (nodeH (snd acc) r)"
  by (simp add: assignData_def Let_def)

lemma assignData_dataNext_mono: "dataNext (snd acc) \<le> dataNext (snd (assignData nodeId d n acc))"
  by (simp add: assignData_def Let_def)

lemma assignData_dataH_old:
  "a < dataNext (snd acc) \<Longrightarrow> dataH (snd (assignData nodeId d n acc)) a = dataH (snd acc) a"
  by (simp add: assignData_def Let_def)

lemma assignData_dataH_new:
  "dataNext (snd acc) \<le> a \<Longrightarrow> a < dataNext (snd (assignData nodeId d n acc))
     \<Longrightarrow> dataH (snd (assignData nodeId d n acc)) a = d"
  by (auto simp: assignData_def Let_def split: if_splits)

lemma assignData_other:
  "r \<noteq> n \<or> node_id (nodeH (snd acc) r) \<noteq> nodeId
     \<Longrightarrow> nodeH (snd (assignData nodeId d n acc)) r = nodeH (snd acc) r"
  by (auto simp: assignData_def Let_def)

lemma assignData_match:
  "node_id (nodeH (snd acc) n) = nodeId
     \<Longrightarrow> data (nodeH (snd (assignData nodeId d n acc)) n) = dataNext (snd acc)
       \<and> dataNext (snd (assignData nodeId d n acc)) = Suc (dataNext (snd acc))
       \<and> fst (assignData nodeId d n acc) = Some n"
  by (simp add: assignData_def Let_def)

lemma assignData_nomatch:
  "node_id (nodeH (snd acc) n) \<noteq> nodeId \<Longrightarrow> assignData nodeId d n acc = acc"
  by (simp add: assignData_def Let_def)

lemma fold_assignData_inputsH [simp]:
  "inputsH (snd (fold (assignData nodeId d) ns acc)) = inputsH (snd acc)"
  by (induction ns arbitrary: acc) simp_all

lemma fold_assignData_nodeNext [simp]:
  "nodeNext (snd (fold (assignData nodeId d) ns acc)) = nodeNext (snd acc)"
  by (induction ns arbitrary: acc) simp_all

lemma fold_assignData_node_id [simp]:
  "node_id (nodeH (snd (fold (assignData nodeId d) ns acc)) r) = node_id (nodeH (snd acc) r)"
  by (induction ns arbitrary: acc) simp_all

lemma fold_assignData_node_type [simp]:
  "node_type (nodeH (snd (fold (assignData nodeId d) ns acc)) r) = node_type (nodeH (snd acc) r)"
  by (induction ns arbitrary: acc) simp_all

lemma fold_assignData_position [simp]:
  "position (nodeH (snd (fold (assignData nodeId d) ns acc)) r) = position (nodeH (snd acc) r)"
  by (induction ns arbitrary: acc) simp_all

lemma fold_assignData_dataNext_mono:
  "dataNext (snd acc) \<le> dataNext (snd (fold (assignData nodeId d) ns acc))"
proof (induction ns arbitrary: acc)
  case Nil
  then show ?case by simp
next
  case (Cons n ns)
  show ?case
    using Cons.IH [of "assignData nodeId d n acc"] assignData_dataNext_mono [of acc nodeId d n]
    by simp
qed

lemma fold_assignData_dataH_old:
  "a < dataNext (snd acc) \<Longrightarrow> dataH (snd (fold (assignData nodeId d) ns acc)) a = dataH (snd acc) a"
proof (induction ns arbitrary: acc)
  case Nil
  then show ?case by simp
next
  case (Cons n ns)
  have "a < dataNext (snd (assignData nodeId d n acc))"
    using Cons.prems assignData_dataNext_mono [of acc nodeId d n] by simp
  then show ?case
    using Cons.IH [of "assignData nodeId d n acc"] Cons.prems
    by (simp add: assignData_dataH_old)
qed

lemma fold_assignData_dataH_new:
  "dataNext (snd acc) \<le> a \<Longrightarrow> a < dataNext (snd (fold (assignData nodeId d) ns acc))
     \<Longrightarrow> dataH (snd (fold (assignData nodeId d) ns acc)) a = d"
proof (induction ns arbitrary: acc)
  case Nil
  then show ?case by simp
next
  case (Cons n ns)
  let ?acc1 = "assignData nodeId d n acc"
  show ?case
  proof (cases "a < dataNext (snd ?acc1)")
    case True
    then have "dataH (snd (fold (assignData nodeId d) ns ?acc1)) a = dataH (snd ?acc1) a"
      by (rule fold_assignData_dataH_old)
    also have "\<dots> = d"
      using Cons.prems(1) True by (rule assignData_dataH_new)
    finally show ?thesis by simp
  next
    case False
    then have "dataNext (snd ?acc1) \<le> a" by simp
    then show ?thesis
      using Cons.IH [of ?acc1] Cons.prems(2) by simp
  qed
qed

lemma fold_assignData_other:
  "r \<notin> set ns \<or> node_id (nodeH (snd acc) r) \<noteq> nodeId
     \<Longrightarrow> nodeH (snd (fold (assignData nodeId d) ns acc)) r = nodeH (snd acc) r"
proof (induction ns arbitrary: acc)
  case Nil
  then show ?case by simp
next
  case (Cons n ns)
  let ?acc1 = "assignData nodeId d n acc"
  from Cons.prems have a: "r \<noteq> n \<or> node_id (nodeH (snd acc) r) \<noteq> nodeId" by auto
  from Cons.prems have b: "r \<notin> set ns \<or> node_id (nodeH (snd ?acc1) r) \<noteq> nodeId" by auto
  show ?case
    using Cons.IH [OF b] assignData_other [OF a] by simp
qed

lemma fold_assignData_match:
  "r \<in> set ns \<Longrightarrow> node_id (nodeH (snd acc) r) = nodeId
     \<Longrightarrow> dataNext (snd acc) \<le> data (nodeH (snd (fold (assignData nodeId d) ns acc)) r)
       \<and> data (nodeH (snd (fold (assignData nodeId d) ns acc)) r)
           < dataNext (snd (fold (assignData nodeId d) ns acc))"
proof (induction ns arbitrary: acc)
  case Nil
  then show ?case by simp
next
  case (Cons n ns)
  let ?acc1 = "assignData nodeId d n acc"
  have mono1: "dataNext (snd acc) \<le> dataNext (snd ?acc1)"
    by (rule assignData_dataNext_mono)
  show ?case
  proof (cases "r \<in> set ns")
    case True
    have "node_id (nodeH (snd ?acc1) r) = nodeId"
      using Cons.prems(2) by simp
    from Cons.IH [OF True this] mono1 show ?thesis by simp
  next
    case False
    with Cons.prems(1) have rn: "r = n" by simp
    have keep: "nodeH (snd (fold (assignData nodeId d) ns ?acc1)) r = nodeH (snd ?acc1) r"
      using False by (simp add: fold_assignData_other)
    have m: "data (nodeH (snd ?acc1) r) = dataNext (snd acc)"
      "dataNext (snd ?acc1) = Suc (dataNext (snd acc))"
      using assignData_match [of acc n nodeId d] Cons.prems(2) rn by simp_all
    have mono2: "dataNext (snd ?acc1) \<le> dataNext (snd (fold (assignData nodeId d) ns ?acc1))"
      by (rule fold_assignData_dataNext_mono)
    show ?thesis
      using keep m mono2 by simp
  qed
qed

lemma fold_assignData_nomatch:
  "\<forall>r \<in> set ns. node_id (nodeH (snd acc) r) \<noteq> nodeId
     \<Longrightarrow> fold (assignData nodeId d) ns acc = acc"
  by (induction ns arbitrary: acc) (simp_all add: assignData_nomatch)

lemma fold_assignData_selected:
  "fst (fold (assignData nodeId d) ns acc) =
     (case filter (\<lambda>r. node_id (nodeH (snd acc) r) = nodeId) ns of
        [] \<Rightarrow> fst acc
      | x # xs \<Rightarrow> Some (last (x # xs)))"
proof (induction ns arbitrary: acc)
  case Nil
  then show ?case by simp
next
  case (Cons n ns)
  show ?case
  proof (cases "node_id (nodeH (snd acc) n) = nodeId")
    case True
    then show ?thesis
      using Cons.IH [of "assignData nodeId d n acc"] assignData_match [OF True, of d]
      by (simp split: list.splits)
  next
    case False
    then show ?thesis
      using Cons.IH [of acc] by (simp add: assignData_nomatch)
  qed
qed

subsection \<open>Updating the inputs of the target nodes\<close>

lemma callUpdateInput_frame [simp]:
  "nodeH (callUpdateInput u nodeId ns t h) = nodeH h"
  "dataH (callUpdateInput u nodeId ns t h) = dataH h"
  "nodeNext (callUpdateInput u nodeId ns t h) = nodeNext h"
  "dataNext (callUpdateInput u nodeId ns t h) = dataNext h"
  by (simp_all add: callUpdateInput_def)

lemma fold_callUpdateInput_frame [simp]:
  "nodeH (fold (callUpdateInput u nodeId ns) ts h) = nodeH h"
  "dataH (fold (callUpdateInput u nodeId ns) ts h) = dataH h"
  "nodeNext (fold (callUpdateInput u nodeId ns) ts h) = nodeNext h"
  "dataNext (fold (callUpdateInput u nodeId ns) ts h) = dataNext h"
  by (induction ts arbitrary: h) simp_all

lemma fold_callUpdateInput_other:
  "i \<notin> inputsRef h ` set ts \<Longrightarrow> inputsH (fold (callUpdateInput u nodeId ns) ts h) i = inputsH h i"
proof (induction ts arbitrary: h)
  case Nil
  then show ?case by simp
next
  case (Cons t ts)
  let ?h1 = "callUpdateInput u nodeId ns t h"
  have r: "inputsRef ?h1 = inputsRef h"
    by (rule ext) (simp add: inputsRef_def)
  from Cons.prems have "i \<notin> inputsRef ?h1 ` set ts" and ne: "i \<noteq> inputsRef h t"
    by (auto simp: r)
  from Cons.IH [OF this(1)] ne show ?case
    by (simp add: callUpdateInput_def)
qed

lemma targetNodesOf_set:
  "t \<in> set (targetNodesOf nodeId es h ns) \<longleftrightarrow>
     t \<in> set ns \<and> (\<exists>e \<in> set es. source e = nodeId \<and> target e = node_id (nodeH h t))"
  by (force simp: targetNodesOf_def)

lemma targetNodesOf_cong:
  "(\<And>n. node_id (nodeH h' n) = node_id (nodeH h n))
     \<Longrightarrow> targetNodesOf nodeId es h' ns = targetNodesOf nodeId es h ns"
  by (simp add: targetNodesOf_def)

lemma updateNode_hp:
  "hp (updateNode u nodeId d w) =
     fold (callUpdateInput u nodeId (nodes (st w)))
       (targetNodesOf nodeId (edges (st w)) (hp w) (nodes (st w)))
       (snd (fold (assignData nodeId d) (nodes (st w)) (None, hp w)))"
proof -
  obtain s h1 where f: "fold (assignData nodeId d) (nodes (st w)) (None, hp w) = (s, h1)"
    by (cases "fold (assignData nodeId d) (nodes (st w)) (None, hp w)")
  have "targetNodesOf nodeId (edges (st w))
          (snd (fold (assignData nodeId d) (nodes (st w)) (None, hp w))) (nodes (st w))
        = targetNodesOf nodeId (edges (st w)) (hp w) (nodes (st w))"
    by (rule targetNodesOf_cong) simp
  with f show ?thesis
    by (simp add: updateNode_def Let_def)
qed

lemma updateNode_st:
  "st (updateNode u nodeId d w) =
     (st w)\<lparr>selectedNode := fst (fold (assignData nodeId d) (nodes (st w)) (None, hp w))\<rparr>"
  by (simp add: updateNode_def Let_def split: prod.splits)

lemma updateNode_nodeH:
  "nodeH (hp (updateNode u nodeId d w))
     = nodeH (snd (fold (assignData nodeId d) (nodes (st w)) (None, hp w)))"
  by (simp add: updateNode_hp)

lemma updateNode_dataH:
  "dataH (hp (updateNode u nodeId d w))
     = dataH (snd (fold (assignData nodeId d) (nodes (st w)) (None, hp w)))"
  by (simp add: updateNode_hp)

lemma updateNode_dataNext:
  "dataNext (hp (updateNode u nodeId d w))
     = dataNext (snd (fold (assignData nodeId d) (nodes (st w)) (None, hp w)))"
  by (simp add: updateNode_hp)

lemma updateNode_inputsRef:
  "inputsRef (hp (updateNode u nodeId d w)) n
     = inputsRef (snd (fold (assignData nodeId d) (nodes (st w)) (None, hp w))) n"
  by (simp add: inputsRef_def updateNode_nodeH updateNode_dataH)

lemma updateNode_inputsH_frame:
  assumes "\<forall>t \<in> set (nodes (st w)). directSuccessor nodeId w t
             \<longrightarrow> inputsRef (hp (updateNode u nodeId d w)) t \<noteq> i"
  shows "inputsH (hp (updateNode u nodeId d w)) i = inputsH (hp w) i"
proof -
  let ?h1 = "snd (fold (assignData nodeId d) (nodes (st w)) (None, hp w))"
  let ?ts = "targetNodesOf nodeId (edges (st w)) (hp w) (nodes (st w))"
  have "i \<notin> inputsRef ?h1 ` set ?ts"
  proof
    assume "i \<in> inputsRef ?h1 ` set ?ts"
    then obtain t where t: "t \<in> set ?ts" "i = inputsRef ?h1 t"
      by auto
    from t(1) have "t \<in> set (nodes (st w))" "directSuccessor nodeId w t"
      by (simp_all add: targetNodesOf_set directSuccessor_def)
    with assms have "inputsRef (hp (updateNode u nodeId d w)) t \<noteq> i"
      by blast
    with t(2) show False
      by (simp add: updateNode_inputsRef)
  qed
  then have "inputsH (fold (callUpdateInput u nodeId (nodes (st w))) ?ts ?h1) i = inputsH ?h1 i"
    by (rule fold_callUpdateInput_other)
  then show ?thesis
    by (simp add: updateNode_hp)
qed


subsection \<open>The modelled input-update\<close>

lemma setSlot_idem: "map (setSlot nodeId v) (map (setSlot nodeId v) slots) = map (setSlot nodeId v) slots"
  by (simp add: setSlot_def)

lemma fold_assignData_node_data:
  assumes "n \<in> set ns"
    and "data (nodeH h n) < dataNext h"
  shows "dataH (snd (fold (assignData nodeId d) ns (sel, h)))
           (data (nodeH (snd (fold (assignData nodeId d) ns (sel, h))) n))
         = (if node_id (nodeH h n) = nodeId then d else dataH h (data (nodeH h n)))"
proof (cases "node_id (nodeH h n) = nodeId")
  case True
  let ?f = "fold (assignData nodeId d) ns (sel, h)"
  have "dataNext h \<le> data (nodeH (snd ?f) n)" "data (nodeH (snd ?f) n) < dataNext (snd ?f)"
    using fold_assignData_match [of n ns "(sel, h)" nodeId d] assms(1) True by simp_all
  then have "dataH (snd ?f) (data (nodeH (snd ?f) n)) = d"
    using fold_assignData_dataH_new [of "(sel, h)" "data (nodeH (snd ?f) n)" nodeId d ns] by simp
  with True show ?thesis by simp
next
  case False
  then have "nodeH (snd (fold (assignData nodeId d) ns (sel, h))) n = nodeH h n"
    using fold_assignData_other [of n ns "(sel, h)" nodeId d] by simp
  moreover have "dataH (snd (fold (assignData nodeId d) ns (sel, h))) (data (nodeH h n))
      = dataH h (data (nodeH h n))"
    using fold_assignData_dataH_old [of "data (nodeH h n)" "(sel, h)" nodeId d ns] assms(2) by simp
  ultimately show ?thesis using False by simp
qed

lemma updateNode_data_allocated:
  assumes "data_allocated w"
  shows "data_allocated (updateNode u nodeId d w)"
  unfolding data_allocated_def
proof
  fix n
  assume "n \<in> set (nodes (st (updateNode u nodeId d w)))"
  then have n: "n \<in> set (nodes (st w))"
    by (simp add: updateNode_st)
  let ?acc = "(None :: ref option, hp w)"
  let ?f = "fold (assignData nodeId d) (nodes (st w)) ?acc"
  have "data (nodeH (snd ?f) n) < dataNext (snd ?f)"
  proof (cases "node_id (nodeH (hp w) n) = nodeId")
    case True
    then show ?thesis
      using fold_assignData_match [of n "nodes (st w)" ?acc nodeId d] n by simp
  next
    case False
    then have "nodeH (snd ?f) n = nodeH (hp w) n"
      using fold_assignData_other [of n "nodes (st w)" ?acc nodeId d] by simp
    moreover have "data (nodeH (hp w) n) < dataNext (hp w)"
      using assms n by (simp add: data_allocated_def)
    moreover have "dataNext (hp w) \<le> dataNext (snd ?f)"
      using fold_assignData_dataNext_mono [of ?acc nodeId d "nodes (st w)"] by simp
    ultimately show ?thesis by simp
  qed
  then show "data (nodeH (hp (updateNode u nodeId d w)) n) < dataNext (hp (updateNode u nodeId d w))"
    by (simp add: updateNode_nodeH updateNode_dataNext)
qed

lemma Inputs_updateInput_after_assign:
  assumes "nodeH h' = nodeH (snd (fold (assignData nodeId d) ns (sel, h)))"
    and "dataH h' = dataH (snd (fold (assignData nodeId d) ns (sel, h)))"
  shows "Inputs_updateInput nodeId ns h' slots =
     (if \<exists>n \<in> set ns. node_id (nodeH h n) = nodeId
      then map (setSlot nodeId (outputValue d)) slots else slots)"
proof (cases "find (\<lambda>n. node_id (nodeH h' n) = nodeId) ns")
  case None
  then have "\<not> (\<exists>n \<in> set ns. node_id (nodeH h n) = nodeId)"
    by (simp add: find_None_iff assms(1))
  with None show ?thesis
    by (simp add: Inputs_updateInput_def)
next
  case (Some n0)
  then have n0: "n0 \<in> set ns" "node_id (nodeH h n0) = nodeId"
    by (auto simp: find_Some_iff assms(1) in_set_conv_nth)
  let ?f = "fold (assignData nodeId d) ns (sel, h)"
  have "dataNext h \<le> data (nodeH (snd ?f) n0)" "data (nodeH (snd ?f) n0) < dataNext (snd ?f)"
    using fold_assignData_match [of n0 ns "(sel, h)" nodeId d] n0 by simp_all
  then have "dataH (snd ?f) (data (nodeH (snd ?f) n0)) = d"
    using fold_assignData_dataH_new [of "(sel, h)" "data (nodeH (snd ?f) n0)" nodeId d ns] by simp
  then have "dataH h' (data (nodeH h' n0)) = d"
    by (simp add: assms)
  with Some n0 show ?thesis
    by (auto simp: Inputs_updateInput_def setSlot_def)
qed

lemma fold_callUpdateInput_idem:
  assumes "\<And>h' slots. nodeH h' = nodeH h \<Longrightarrow> dataH h' = dataH h \<Longrightarrow> u nodeId ns h' slots = F slots"
    and "\<And>slots. F (F slots) = F slots"
  shows "inputsH (fold (callUpdateInput u nodeId ns) ts h) i =
     (if i \<in> inputsRef h ` set ts then F (inputsH h i) else inputsH h i)"
  using assms(1)
proof (induction ts arbitrary: h)
  case Nil
  then show ?case by simp
next
  case (Cons t ts)
  let ?h1 = "callUpdateInput u nodeId ns t h"
  have r: "inputsRef ?h1 = inputsRef h"
    by (rule ext) (simp add: inputsRef_def)
  have i1: "inputsH ?h1 = (inputsH h)(inputsRef h t := F (inputsH h (inputsRef h t)))"
    using Cons.prems [of h] by (simp add: callUpdateInput_def)
  have "inputsH (fold (callUpdateInput u nodeId ns) ts ?h1) i =
     (if i \<in> inputsRef ?h1 ` set ts then F (inputsH ?h1 i) else inputsH ?h1 i)"
    by (rule Cons.IH) (simp add: Cons.prems)
  then show ?case
    by (auto simp: r i1 assms(2))
qed

lemma setSlot_twice [simp]: "setSlot nodeId v (setSlot nodeId v s) = setSlot nodeId v s"
  by (simp add: setSlot_def)

lemma updateNode_inputsH:
  "inputsH (hp (updateNode Inputs_updateInput nodeId d w)) i =
     (if i \<in> inputsRef (hp (updateNode Inputs_updateInput nodeId d w))
               ` set (targetNodesOf nodeId (edges (st w)) (hp w) (nodes (st w)))
      then (if \<exists>n \<in> set (nodes (st w)). node_id (nodeH (hp w) n) = nodeId
            then map (setSlot nodeId (outputValue d)) (inputsH (hp w) i) else inputsH (hp w) i)
      else inputsH (hp w) i)"
proof -
  let ?ns = "nodes (st w)"
  let ?h1 = "snd (fold (assignData nodeId d) ?ns (None, hp w))"
  let ?ts = "targetNodesOf nodeId (edges (st w)) (hp w) ?ns"
  let ?F = "\<lambda>slots. if \<exists>n \<in> set ?ns. node_id (nodeH (hp w) n) = nodeId
            then map (setSlot nodeId (outputValue d)) slots else slots"
  have F: "\<And>h' slots. nodeH h' = nodeH ?h1 \<Longrightarrow> dataH h' = dataH ?h1
      \<Longrightarrow> Inputs_updateInput nodeId ?ns h' slots = ?F slots"
    by (rule Inputs_updateInput_after_assign)
  have idem: "\<And>slots. ?F (?F slots) = ?F slots"
    by (simp add: setSlot_idem)
  have "inputsH (fold (callUpdateInput Inputs_updateInput nodeId ?ns) ?ts ?h1) i =
     (if i \<in> inputsRef ?h1 ` set ?ts then ?F (inputsH ?h1 i) else inputsH ?h1 i)"
    using F idem by (rule fold_callUpdateInput_idem)
  moreover have "inputsRef (hp (updateNode Inputs_updateInput nodeId d w)) = inputsRef ?h1"
    by (rule ext) (simp add: updateNode_inputsRef)
  ultimately show ?thesis
    by (simp add: updateNode_hp)
qed

lemma updateNode_inputsRef_eq:
  assumes "data_allocated w" and "n \<in> set (nodes (st w))"
  shows "inputsRef (hp (updateNode u nodeId d w)) n =
     (if node_id (nodeH (hp w) n) = nodeId then inputs d else inputsRef (hp w) n)"
proof -
  have "data (nodeH (hp w) n) < dataNext (hp w)"
    using assms by (simp add: data_allocated_def)
  with assms(2) show ?thesis
    using fold_assignData_node_data [of n "nodes (st w)" "hp w" nodeId d None]
    unfolding updateNode_inputsRef
    by (simp add: inputsRef_def)
qed

lemma updateNode_node_id [simp]:
  "node_id (nodeH (hp (updateNode u nodeId d w)) n) = node_id (nodeH (hp w) n)"
  by (simp add: updateNode_nodeH)

lemma updateNode_nodes_edges [simp]:
  "nodes (st (updateNode u nodeId d w)) = nodes (st w)"
  "edges (st (updateNode u nodeId d w)) = edges (st w)"
  by (simp_all add: updateNode_st)

lemma updateNode_selected:
  "selectedNode (st (updateNode u nodeId d w)) =
     (case filter (\<lambda>r. node_id (nodeH (hp w) r) = nodeId) (nodes (st w)) of
        [] \<Rightarrow> None
      | x # xs \<Rightarrow> Some (last (x # xs)))"
  using fold_assignData_selected [of nodeId d "nodes (st w)" "(None, hp w)"]
  by (simp add: updateNode_st cong: list.case_cong)

subsection \<open>The calls on the direct successors\<close>





subsection \<open>Properties of updateNode\<close>

text \<open>
  C10. For every id that matches no stored node, \<^verbatim>\<open>updateNode\<close> sets the selected node
  to null, whatever it was, and writes no node and no data: the node list, the edges,
  every node object and every data object are as before, and no data object is created.
  The inputs objects of the targets of edges whose source is the id still receive the
  \<^verbatim>\<open>updateInput\<close> call, and no other inputs object is written; when no edge has that
  source the whole heap is as before.
\<close>

theorem updateNode_unknown_id:
  assumes "\<forall>n \<in> set (nodes (st w)). node_id (nodeH (hp w) n) \<noteq> nodeId"
  shows "selectedNode (st (updateNode u nodeId d w)) = None
    \<and> nodes (st (updateNode u nodeId d w)) = nodes (st w)
    \<and> edges (st (updateNode u nodeId d w)) = edges (st w)
    \<and> nodeH (hp (updateNode u nodeId d w)) = nodeH (hp w)
    \<and> dataH (hp (updateNode u nodeId d w)) = dataH (hp w)
    \<and> dataNext (hp (updateNode u nodeId d w)) = dataNext (hp w)
    \<and> (\<forall>i. (\<forall>t \<in> set (nodes (st w)). directSuccessor nodeId w t \<longrightarrow> inputsRef (hp w) t \<noteq> i)
            \<longrightarrow> inputsH (hp (updateNode u nodeId d w)) i = inputsH (hp w) i)
    \<and> ((\<forall>e \<in> set (edges (st w)). source e \<noteq> nodeId) \<longrightarrow> hp (updateNode u nodeId d w) = hp w)"
proof -
  have f: "fold (assignData nodeId d) (nodes (st w)) (None, hp w) = (None, hp w)"
    by (rule fold_assignData_nomatch) (use assms in simp)
  have t: "(\<forall>e \<in> set (edges (st w)). source e \<noteq> nodeId)
      \<Longrightarrow> targetNodesOf nodeId (edges (st w)) (hp w) (nodes (st w)) = []"
    by (auto simp: targetNodesOf_def filter_empty_conv)
  have r: "inputsRef (hp (updateNode u nodeId d w)) = inputsRef (hp w)"
    by (rule ext) (simp add: updateNode_inputsRef f)
  have i: "\<And>i. \<forall>t \<in> set (nodes (st w)). directSuccessor nodeId w t \<longrightarrow> inputsRef (hp w) t \<noteq> i
      \<Longrightarrow> inputsH (hp (updateNode u nodeId d w)) i = inputsH (hp w) i"
    by (rule updateNode_inputsH_frame) (simp add: r)
  have 1: "selectedNode (st (updateNode u nodeId d w)) = None
    \<and> nodes (st (updateNode u nodeId d w)) = nodes (st w)
    \<and> edges (st (updateNode u nodeId d w)) = edges (st w)
    \<and> nodeH (hp (updateNode u nodeId d w)) = nodeH (hp w)
    \<and> dataH (hp (updateNode u nodeId d w)) = dataH (hp w)
    \<and> dataNext (hp (updateNode u nodeId d w)) = dataNext (hp w)"
    by (simp add: updateNode_st updateNode_nodeH updateNode_dataH updateNode_dataNext f)
  have 2: "(\<forall>e \<in> set (edges (st w)). source e \<noteq> nodeId) \<longrightarrow> hp (updateNode u nodeId d w) = hp w"
    by (simp add: updateNode_hp f t)
  from 1 2 i show ?thesis
    by blast
qed

theorem updateNode_unknown_id_witness:
  "selectedNode (st sample_world) = Some 0
   \<and> selectedNode (st (updateNode Inputs_updateInput ''X'' dataBye sample_world)) = None
   \<and> nodes (st (updateNode Inputs_updateInput ''X'' dataBye sample_world)) = [0, 1, 2]
   \<and> hp (updateNode Inputs_updateInput ''X'' dataBye sample_world) = hp sample_world"
proof -
  have a: "\<forall>n \<in> set (nodes (st sample_world)). node_id (nodeH (hp sample_world) n) \<noteq> ''X''"
    by (simp add: sample_defs)
  have b: "\<forall>e \<in> set (edges (st sample_world)). source e \<noteq> ''X''"
    by (simp add: sample_defs)
  have c: "selectedNode (st sample_world) = Some 0" "nodes (st sample_world) = [0, 1, 2]"
    by (simp_all add: sample_defs)
  from updateNode_unknown_id [OF a, of Inputs_updateInput dataBye] b c
  show ?thesis by simp
qed

text \<open>
  C4, as the specification states it, fails: the node a caller holds is not unchanged by
  the call. \<^verbatim>\<open>node.data = {...data}\<close> assigns to the node object itself, which stays in
  the node list: after \<^verbatim>\<open>updateNode\<close> of T, the object at T's address has another data
  reference. The inputs object of the successor P, reached from P's unchanged data
  object, holds another value too.
\<close>

theorem updateNode_in_place_counterexample:
  "nodeH (hp sample_world) 0 = nodeT
   \<and> nodeH (hp (updateNode Inputs_updateInput ''T'' dataBye sample_world)) 0 = nodeT\<lparr>data := 3\<rparr>
   \<and> nodeT\<lparr>data := 3\<rparr> \<noteq> nodeT
   \<and> nodes (st (updateNode Inputs_updateInput ''T'' dataBye sample_world)) = [0, 1, 2]
   \<and> inputsRef (hp sample_world) 1 = 1
   \<and> inputsRef (hp (updateNode Inputs_updateInput ''T'' dataBye sample_world)) 1 = 1
   \<and> inputsH (hp sample_world) 1 = [slotT]
   \<and> inputsH (hp (updateNode Inputs_updateInput ''T'' dataBye sample_world)) 1
       = [slotT\<lparr>slot_value := ''Bye''\<rparr>]"
  by (simp add: updateNode_eval sample_defs dataBye_def)

text \<open>
  C4, amended. For a stored node with the given id, \<^verbatim>\<open>updateNode\<close> assigns to the
  node's \<^verbatim>\<open>data\<close> field a data object created by the call, a copy of the argument; the
  data object the node held before, like every data object that existed before the call,
  is not written. The node object itself is updated in place: the node list holds the same
  node objects, and the node keeps its id, type and position.
\<close>

theorem updateNode_replaces_data:
  assumes "data_allocated w"
    and "n \<in> set (nodes (st w))"
    and "node_id (nodeH (hp w) n) = nodeId"
  shows "nodes (st (updateNode u nodeId d w)) = nodes (st w)
    \<and> dataNext (hp w) \<le> data (nodeH (hp (updateNode u nodeId d w)) n)
    \<and> data (nodeH (hp (updateNode u nodeId d w)) n) \<noteq> data (nodeH (hp w) n)
    \<and> dataH (hp (updateNode u nodeId d w)) (data (nodeH (hp (updateNode u nodeId d w)) n)) = d
    \<and> node_id (nodeH (hp (updateNode u nodeId d w)) n) = node_id (nodeH (hp w) n)
    \<and> node_type (nodeH (hp (updateNode u nodeId d w)) n) = node_type (nodeH (hp w) n)
    \<and> position (nodeH (hp (updateNode u nodeId d w)) n) = position (nodeH (hp w) n)
    \<and> dataH (hp (updateNode u nodeId d w)) (data (nodeH (hp w) n)) = dataH (hp w) (data (nodeH (hp w) n))
    \<and> (\<forall>a. a < dataNext (hp w) \<longrightarrow> dataH (hp (updateNode u nodeId d w)) a = dataH (hp w) a)"
proof -
  let ?acc = "(None :: ref option, hp w)"
  let ?f = "fold (assignData nodeId d) (nodes (st w)) ?acc"
  have old: "data (nodeH (hp w) n) < dataNext (hp w)"
    using assms(1,2) by (simp add: data_allocated_def)
  have m: "dataNext (hp w) \<le> data (nodeH (snd ?f) n)" "data (nodeH (snd ?f) n) < dataNext (snd ?f)"
    using fold_assignData_match [of n "nodes (st w)" ?acc nodeId d] assms(2,3) by simp_all
  have new: "dataH (snd ?f) (data (nodeH (snd ?f) n)) = d"
    using fold_assignData_dataH_new [of ?acc "data (nodeH (snd ?f) n)" nodeId d "nodes (st w)"] m
    by simp
  have keep: "\<And>a. a < dataNext (hp w) \<Longrightarrow> dataH (snd ?f) a = dataH (hp w) a"
    using fold_assignData_dataH_old [of _ ?acc nodeId d "nodes (st w)"] by simp
  show ?thesis
    using old m new keep
    by (simp add: updateNode_st updateNode_nodeH updateNode_dataH)
qed

theorem updateNode_replaces_data_witness:
  "data_allocated sample_world
   \<and> data (nodeH (hp (updateNode Inputs_updateInput ''T'' dataBye sample_world)) 0) \<noteq> 0
   \<and> dataH (hp (updateNode Inputs_updateInput ''T'' dataBye sample_world))
        (data (nodeH (hp (updateNode Inputs_updateInput ''T'' dataBye sample_world)) 0)) = dataBye
   \<and> dataH (hp (updateNode Inputs_updateInput ''T'' dataBye sample_world)) 0 = dataT"
proof -
  have a: "data_allocated sample_world"
    by (simp add: data_allocated_def sample_defs)
  have b: "0 \<in> set (nodes (st sample_world))"
    by (simp add: sample_defs)
  have c: "node_id (nodeH (hp sample_world) 0) = ''T''"
    by (simp add: sample_defs)
  have d: "data (nodeH (hp sample_world) 0) = 0" "dataH (hp sample_world) 0 = dataT"
    by (simp_all add: sample_defs)
  from updateNode_replaces_data [OF a b c, of Inputs_updateInput dataBye] a d
  show ?thesis by simp
qed






text \<open>
  C5. With the modelled input-update, calling \<^verbatim>\<open>updateNode\<close> twice with the same id
  and data leaves the inputs as one call does: every inputs object has the same content,
  every stored node (so every successor) has the same recorded inputs, and the node
  list, the edges and the selection are the same.
\<close>

theorem updateNode_idempotent:
  assumes "data_allocated w"
  shows "inputsH (hp (updateNode Inputs_updateInput nodeId d (updateNode Inputs_updateInput nodeId d w)))
      = inputsH (hp (updateNode Inputs_updateInput nodeId d w))
    \<and> (\<forall>n \<in> set (nodes (st w)).
          inputsOf (hp (updateNode Inputs_updateInput nodeId d (updateNode Inputs_updateInput nodeId d w))) n
            = inputsOf (hp (updateNode Inputs_updateInput nodeId d w)) n)
    \<and> st (updateNode Inputs_updateInput nodeId d (updateNode Inputs_updateInput nodeId d w))
      = st (updateNode Inputs_updateInput nodeId d w)"
proof -
  let ?w1 = "updateNode Inputs_updateInput nodeId d w"
  let ?w2 = "updateNode Inputs_updateInput nodeId d ?w1"
  let ?ns = "nodes (st w)"
  let ?ts = "targetNodesOf nodeId (edges (st w)) (hp w) ?ns"
  have a1: "data_allocated ?w1"
    using assms by (rule updateNode_data_allocated)
  have ts: "targetNodesOf nodeId (edges (st ?w1)) (hp ?w1) (nodes (st ?w1)) = ?ts"
    by (simp add: targetNodesOf_def)
  have refs: "inputsRef (hp ?w2) n = inputsRef (hp ?w1) n" if "n \<in> set ?ns" for n
    using that updateNode_inputsRef_eq [OF a1, of n Inputs_updateInput nodeId d]
      updateNode_inputsRef_eq [OF assms, of n Inputs_updateInput nodeId d]
    by simp
  have img: "inputsRef (hp ?w2) ` set ?ts = inputsRef (hp ?w1) ` set ?ts"
    by (rule image_cong) (simp_all add: refs targetNodesOf_set)
  have heap: "inputsH (hp ?w2) i = inputsH (hp ?w1) i" for i
    unfolding updateNode_inputsH [of nodeId d ?w1] ts img
    by (simp add: updateNode_inputsH [of nodeId d w] setSlot_idem)
  then have h: "inputsH (hp ?w2) = inputsH (hp ?w1)"
    by (rule ext)
  have s: "st ?w2 = st ?w1"
    by (rule RFState.equality) (simp_all add: updateNode_selected)
  show ?thesis
    using h s refs by (simp add: inputsOf_def)
qed

theorem updateNode_idempotent_witness:
  "data_allocated sample_world
   \<and> inputsOf (hp (updateNode Inputs_updateInput ''T'' dataBye sample_world)) 1
       = [slotT\<lparr>slot_value := ''Bye''\<rparr>]
   \<and> inputsOf (hp (updateNode Inputs_updateInput ''T'' dataBye
                     (updateNode Inputs_updateInput ''T'' dataBye sample_world))) 1
       = [slotT\<lparr>slot_value := ''Bye''\<rparr>]"
proof -
  have a: "data_allocated sample_world"
    by (simp add: data_allocated_def sample_defs)
  have b: "1 \<in> set (nodes (st sample_world))"
    by (simp add: sample_defs)
  have c: "inputsOf (hp (updateNode Inputs_updateInput ''T'' dataBye sample_world)) 1
       = [slotT\<lparr>slot_value := ''Bye''\<rparr>]"
    by (simp add: updateNode_eval sample_defs dataBye_def)
  from updateNode_idempotent [OF a, of "''T''" dataBye] b
  have "inputsOf (hp (updateNode Inputs_updateInput ''T'' dataBye
                     (updateNode Inputs_updateInput ''T'' dataBye sample_world))) 1
      = inputsOf (hp (updateNode Inputs_updateInput ''T'' dataBye sample_world)) 1"
    by blast
  with a c show ?thesis by simp
qed

end
